theory Spec2Isabelle
  imports Complex_Main
begin

section \<open>Data model: the Event and RSVP collections\<close>

text \<open>
  Object ids are opaque; they are modelled as natural numbers. The fields \<open>capacity\<close>
  and \<open>currentAttendees\<close> have the schema type \<open>Number\<close>: they are modelled as real
  numbers, since the schema validates a minimum and a maximum and no integrality (the
  validators bound the capacity by 10000, far below the numbers a double stops
  representing exactly). A \<open>Date\<close> is its time value, an integer number of milliseconds
  since the epoch; the range limit of \<open>Date\<close> is not modelled.
\<close>

type_synonym userId = nat
type_synonym eventId = nat

datatype event_status = Upcoming | Ongoing | Completed | Cancelled

datatype rsvp_status = Confirmed | RCancelled | Waitlist

text \<open>The fields of \<open>EventSchema\<close> that the reservation code reads or writes.\<close>

record event_doc =
  capacity :: real
  currentAttendees :: real
  status :: event_status
  date :: int
  organizer :: userId
  attendees :: "userId list"

text \<open>The fields of \<open>RSVPSchema\<close>; \<open>rstatus\<close> is its \<open>status\<close> field.\<close>

record rsvp_doc =
  user :: userId
  event :: eventId
  rstatus :: rsvp_status
  cancellationDate :: "int option"

text \<open>
  The two collections. Events are keyed by \<open>_id\<close>; the RSVP collection is kept in
  insertion (natural) order, which is the order \<open>findOne\<close> scans it in.
\<close>

record ledgers =
  events :: "eventId \<rightharpoonup> event_doc"
  rsvps :: "rsvp_doc list"

datatype store_error = E11000 | OtherError

text \<open>
  The route parameter \<open>:eventId\<close> is a string of the caller's choice. The queries cast
  it to an object id: \<open>GoodId\<close> is a string that is one, \<open>BadId\<close> a string on which
  the cast fails and the query rejects with a \<open>CastError\<close>. The user id is the one the
  authentication layer has verified.
\<close>

datatype id_param = BadId | GoodId eventId

text \<open>The HTTP responses of the RSVP controller, one constructor per \<open>res.json\<close> call.\<close>

datatype response =
    Created rsvp_doc real       \<comment> \<open>201, the record and \<open>availableSpots\<close>\<close>
  | AlreadyRSVPd                \<comment> \<open>400, "You have already RSVP'd to this event"\<close>
  | FullOrMissing               \<comment> \<open>400, "Event is full or does not exist"\<close>
  | RSVPNotFound                \<comment> \<open>404, "RSVP not found"\<close>
  | EventNotFound               \<comment> \<open>404, "Event not found"\<close>
  | CancelledOk real            \<comment> \<open>200, \<open>availableSpots\<close>\<close>
  | StatusOk bool "rsvp_doc option"  \<comment> \<open>200, \<open>hasRSVP\<close> and \<open>rsvp\<close>\<close>
  | ServerError                 \<comment> \<open>500\<close>

section \<open>Store operations\<close>

text \<open>The filter \<open>{user, event, status: 'confirmed'}\<close> used by every RSVP query.\<close>

definition confirmed_for :: "userId \<Rightarrow> eventId \<Rightarrow> rsvp_doc \<Rightarrow> bool" where
  "confirmed_for u e r = (user r = u \<and> event r = e \<and> rstatus r = Confirmed)"

definition RSVP_findOne :: "userId \<Rightarrow> eventId \<Rightarrow> ledgers \<Rightarrow> rsvp_doc option" where
  "RSVP_findOne u e db = find (confirmed_for u e) (rsvps db)"

text \<open>\<open>$addToSet\<close> appends a value that is not yet in the array; \<open>$pull\<close> removes every
  occurrence.\<close>

definition addToSet :: "'a \<Rightarrow> 'a list \<Rightarrow> 'a list" where
  "addToSet x xs = (if x \<in> set xs then xs else xs @ [x])"

definition pull :: "'a \<Rightarrow> 'a list \<Rightarrow> 'a list" where
  "pull x xs = filter (\<lambda>y. y \<noteq> x) xs"

text \<open>
  \<open>Event.findOneAndUpdate({_id, $expr: {$lt: [currentAttendees, capacity]}},
  {$inc: {currentAttendees: 1}, $addToSet: {attendees: userId}}, {new: true})\<close>:
  one conditional update; the updated document is returned, or null when no document
  matches.
\<close>

definition Event_findOneAndUpdate ::
    "eventId \<Rightarrow> userId \<Rightarrow> ledgers \<Rightarrow> event_doc option \<times> ledgers" where
  "Event_findOneAndUpdate e u db =
     (case events db e of
        None \<Rightarrow> (None, db)
      | Some ev \<Rightarrow>
          if currentAttendees ev < capacity ev
          then (let ev' = ev\<lparr>currentAttendees := currentAttendees ev + 1,
                              attendees := addToSet u (attendees ev)\<rparr>
                in (Some ev', db\<lparr>events := (events db)(e \<mapsto> ev')\<rparr>))
          else (None, db))"

text \<open>
  \<open>Event.findByIdAndUpdate(eventId, {$inc: {currentAttendees: -1},
  $pull: {attendees: userId}}, {new: true})\<close>. Update validators do not apply to
  \<open>$inc\<close>, so the \<open>min: 0\<close> of the schema is not checked here.
\<close>

definition Event_findByIdAndUpdate ::
    "eventId \<Rightarrow> userId \<Rightarrow> ledgers \<Rightarrow> event_doc option \<times> ledgers" where
  "Event_findByIdAndUpdate e u db =
     (case events db e of
        None \<Rightarrow> (None, db)
      | Some ev \<Rightarrow>
          (let ev' = ev\<lparr>currentAttendees := currentAttendees ev - 1,
                         attendees := pull u (attendees ev)\<rparr>
           in (Some ev', db\<lparr>events := (events db)(e \<mapsto> ev')\<rparr>)))"

text \<open>
  \<open>RSVP.create({user, event, status: 'confirmed'})\<close> saves a new document. It has two
  parts, each one round trip to the store:
  \<^item> the first \<open>pre('save')\<close> hook of the schema looks for a confirmed record of the
    pair and throws an error with \<open>code = 11000\<close> when there is one;
  \<^item> the insert, which the unique index \<open>{user: 1, event: 1}\<close> refuses with the
    duplicate-key error 11000 when a record of the pair, of any status, is stored.
  The second \<open>pre('save')\<close> hook only acts on a record whose status is cancelled.
\<close>

definition new_rsvp :: "userId \<Rightarrow> eventId \<Rightarrow> rsvp_doc" where
  "new_rsvp u e = \<lparr>user = u, event = e, rstatus = Confirmed, cancellationDate = None\<rparr>"

definition RSVP_presave :: "userId \<Rightarrow> eventId \<Rightarrow> ledgers \<Rightarrow> store_error + unit" where
  "RSVP_presave u e db =
     (case RSVP_findOne u e db of Some existing \<Rightarrow> Inl E11000 | None \<Rightarrow> Inr ())"

definition same_pair :: "userId \<Rightarrow> eventId \<Rightarrow> rsvp_doc \<Rightarrow> bool" where
  "same_pair u e r = (user r = u \<and> event r = e)"

definition RSVP_insert :: "userId \<Rightarrow> eventId \<Rightarrow> ledgers \<Rightarrow> store_error + rsvp_doc \<times> ledgers" where
  "RSVP_insert u e db =
     (if list_ex (same_pair u e) (rsvps db) then Inl E11000
      else Inr (new_rsvp u e, db\<lparr>rsvps := rsvps db @ [new_rsvp u e]\<rparr>))"

definition RSVP_create :: "userId \<Rightarrow> eventId \<Rightarrow> ledgers \<Rightarrow> store_error + rsvp_doc \<times> ledgers" where
  "RSVP_create u e db =
     (case RSVP_presave u e db of
        Inl err \<Rightarrow> Inl err
      | Inr _ \<Rightarrow> RSVP_insert u e db)"

text \<open>\<open>RSVP.findOneAndDelete({user, event, status: 'confirmed'})\<close> removes the first
  matching record and returns it, or returns null.\<close>

definition RSVP_findOneAndDelete ::
    "userId \<Rightarrow> eventId \<Rightarrow> ledgers \<Rightarrow> rsvp_doc option \<times> ledgers" where
  "RSVP_findOneAndDelete u e db =
     (case RSVP_findOne u e db of
        None \<Rightarrow> (None, db)
      | Some r \<Rightarrow> (Some r, db\<lparr>rsvps := remove1 r (rsvps db)\<rparr>))"

section \<open>The RSVP controller\<close>

text \<open>The \<open>catch\<close> block of \<open>createRSVP\<close>.\<close>

definition createRSVP_catch :: "store_error \<Rightarrow> response" where
  "createRSVP_catch err = (if err = E11000 then AlreadyRSVPd else ServerError)"

text \<open>
  \<open>createRSVP\<close> run from its first to its last statement with no other request in
  between. The store calls are assumed to answer (no input/output failure); the only
  exception is the duplicate-key error of \<open>RSVP.create\<close>. The event id is one that
  the queries accept (a \<open>GoodId\<close>). The 201 response carries
  the record and \<open>availableSpots = capacity - currentAttendees\<close> of the updated event.
\<close>

definition createRSVP :: "userId \<Rightarrow> eventId \<Rightarrow> ledgers \<Rightarrow> response \<times> ledgers" where
  "createRSVP u e db =
     (case RSVP_findOne u e db of
        Some existingRSVP \<Rightarrow> (AlreadyRSVPd, db)
      | None \<Rightarrow>
          (case Event_findOneAndUpdate e u db of
             (None, db1) \<Rightarrow> (FullOrMissing, db1)
           | (Some ev, db1) \<Rightarrow>
               (case RSVP_create u e db1 of
                  Inl err \<Rightarrow> (createRSVP_catch err, db1)
                | Inr (rsvp, db2) \<Rightarrow>
                    (Created rsvp (capacity ev - currentAttendees ev), db2))))"

definition cancelRSVP :: "userId \<Rightarrow> eventId \<Rightarrow> ledgers \<Rightarrow> response \<times> ledgers" where
  "cancelRSVP u e db =
     (case RSVP_findOneAndDelete u e db of
        (None, db1) \<Rightarrow> (RSVPNotFound, db1)
      | (Some rsvp, db1) \<Rightarrow>
          (case Event_findByIdAndUpdate e u db1 of
             (None, db2) \<Rightarrow> (EventNotFound, db2)
           | (Some ev, db2) \<Rightarrow> (CancelledOk (capacity ev - currentAttendees ev), db2)))"

text \<open>
  \<open>checkRSVPStatus\<close>, from the route parameter: when \<open>RSVP.findOne\<close> rejects, the
  \<open>catch\<close> block answers 500 "Failed to check RSVP status".
\<close>

definition checkRSVPStatus :: "userId \<Rightarrow> id_param \<Rightarrow> ledgers \<Rightarrow> response \<times> ledgers" where
  "checkRSVPStatus u p db =
     (case p of
        BadId \<Rightarrow> (ServerError, db)
      | GoodId e \<Rightarrow>
          (let rsvp = RSVP_findOne u e db in (StatusOk (rsvp \<noteq> None) rsvp, db)))"

text \<open>
  \<open>deleteAccount\<close> of the user controller, as far as the two collections go:
  \<open>Event.deleteMany({organizer: userId})\<close>, then \<open>RSVP.deleteMany({user: userId})\<close>.
\<close>

definition deleteAccount :: "userId \<Rightarrow> ledgers \<Rightarrow> ledgers" where
  "deleteAccount u db =
     db\<lparr>events := (\<lambda>e. case events db e of
                         None \<Rightarrow> None
                       | Some ev \<Rightarrow> if organizer ev = u then None else Some ev),
        rsvps := filter (\<lambda>r. user r \<noteq> u) (rsvps db)\<rparr>"

section \<open>The save hooks of the two schemas\<close>

text \<open>
  The first \<open>pre('save')\<close> hook of \<open>EventSchema\<close>: the end time is the date plus
  \<open>4 * 60 * 60 * 1000\<close> milliseconds.
\<close>

definition pre_save_status :: "int \<Rightarrow> event_doc \<Rightarrow> event_doc" where
  "pre_save_status now ev =
     (let eventDate = date ev;
          eventEndTime = eventDate + 4 * 60 * 60 * 1000
      in if now < eventDate then ev\<lparr>status := Upcoming\<rparr>
         else if now \<ge> eventDate \<and> now < eventEndTime then ev\<lparr>status := Ongoing\<rparr>
         else if now \<ge> eventEndTime then ev\<lparr>status := Completed\<rparr>
         else ev)"

text \<open>The second \<open>pre('save')\<close> hook of \<open>EventSchema\<close> throws when the counter is above
  the capacity.\<close>

definition pre_save_capacity :: "event_doc \<Rightarrow> store_error + event_doc" where
  "pre_save_capacity ev =
     (if currentAttendees ev > capacity ev then Inl OtherError else Inr ev)"

text \<open>The validators of the field \<open>capacity\<close>: \<open>min: 1\<close> and \<open>max: 10000\<close>, and nothing
  else. \<open>createEvent\<close> stores every capacity of the request body that passes them.\<close>

definition capacity_validators :: "real \<Rightarrow> bool" where
  "capacity_validators c = (1 \<le> c \<and> c \<le> 10000)"

text \<open>The second \<open>pre('save')\<close> hook of \<open>RSVPSchema\<close>; \<open>modified\<close> is
  \<open>this.isModified('status')\<close>.\<close>

definition pre_save_cancellation :: "int \<Rightarrow> bool \<Rightarrow> rsvp_doc \<Rightarrow> rsvp_doc" where
  "pre_save_cancellation now modified r =
     (if modified \<and> rstatus r = RCancelled then r\<lparr>cancellationDate := Some now\<rparr> else r)"

section \<open>Requests as sequences of store calls\<close>

text \<open>
  Each \<open>await\<close> of a controller is one call to the store, and between two calls of
  one request the calls of other requests may run. A request in flight is the point
  it has reached, with the local variables it still needs:
  \<^item> \<open>Join0\<close>: \<open>createRSVP\<close> before \<open>RSVP.findOne\<close>;
  \<^item> \<open>Join1\<close>: before \<open>Event.findOneAndUpdate\<close>;
  \<^item> \<open>Join2\<close>: inside \<open>RSVP.create\<close>, before the query of the save hook;
  \<^item> \<open>Join3\<close>: inside \<open>RSVP.create\<close>, before the insert;
  \<^item> \<open>Leave0\<close>: \<open>cancelRSVP\<close> before \<open>RSVP.findOneAndDelete\<close>;
  \<^item> \<open>Leave1\<close>: before \<open>Event.findByIdAndUpdate\<close>;
  \<^item> \<open>Done\<close>: the response has been sent.
  The read \<open>RSVP.findById(...).populate(...)\<close> that decorates the 201 response
  changes nothing and is left out.
\<close>

datatype proc =
    Join0 userId eventId
  | Join1 userId eventId
  | Join2 userId eventId event_doc
  | Join3 userId eventId event_doc
  | Leave0 userId eventId
  | Leave1 userId eventId
  | Done response

fun step_proc :: "proc \<Rightarrow> ledgers \<Rightarrow> proc \<times> ledgers" where
  "step_proc (Join0 u e) db =
     (case RSVP_findOne u e db of
        Some existingRSVP \<Rightarrow> (Done AlreadyRSVPd, db)
      | None \<Rightarrow> (Join1 u e, db))"
| "step_proc (Join1 u e) db =
     (case Event_findOneAndUpdate e u db of
        (None, db1) \<Rightarrow> (Done FullOrMissing, db1)
      | (Some ev, db1) \<Rightarrow> (Join2 u e ev, db1))"
| "step_proc (Join2 u e ev) db =
     (case RSVP_presave u e db of
        Inl err \<Rightarrow> (Done (createRSVP_catch err), db)
      | Inr _ \<Rightarrow> (Join3 u e ev, db))"
| "step_proc (Join3 u e ev) db =
     (case RSVP_insert u e db of
        Inl err \<Rightarrow> (Done (createRSVP_catch err), db)
      | Inr (rsvp, db2) \<Rightarrow> (Done (Created rsvp (capacity ev - currentAttendees ev)), db2))"
| "step_proc (Leave0 u e) db =
     (case RSVP_findOneAndDelete u e db of
        (None, db1) \<Rightarrow> (Done RSVPNotFound, db1)
      | (Some rsvp, db1) \<Rightarrow> (Leave1 u e, db1))"
| "step_proc (Leave1 u e) db =
     (case Event_findByIdAndUpdate e u db of
        (None, db2) \<Rightarrow> (Done EventNotFound, db2)
      | (Some ev, db2) \<Rightarrow> (Done (CancelledOk (capacity ev - currentAttendees ev)), db2))"
| "step_proc (Done r) db = (Done r, db)"

text \<open>
  A configuration is the store and the requests in flight. A schedule is the list of
  the indices of the requests that move, one store call at a time; an index that
  names no request, or a finished one, changes nothing.
\<close>

type_synonym config = "ledgers \<times> proc list"

definition step_at :: "nat \<Rightarrow> config \<Rightarrow> config" where
  "step_at i c =
     (case c of (db, ps) \<Rightarrow>
        if i < length ps
        then (case step_proc (ps ! i) db of (p', db') \<Rightarrow> (db', ps[i := p']))
        else (db, ps))"

primrec run_sched :: "nat list \<Rightarrow> config \<Rightarrow> config" where
  "run_sched [] c = c"
| "run_sched (i # sched) c = run_sched sched (step_at i c)"

section \<open>Sample documents\<close>

text \<open>Concrete events and a concrete race, used where a property is evaluated.\<close>

definition an_event :: "real \<Rightarrow> real \<Rightarrow> event_status \<Rightarrow> userId list \<Rightarrow> event_doc" where
  "an_event cap n st as =
     \<lparr>capacity = cap, currentAttendees = n, status = st, date = 100, organizer = 9,
      attendees = as\<rparr>"

text \<open>Two \<open>createRSVP\<close> requests of user 7 for event 1, which has two free spots.\<close>

definition two_joins :: config where
  "two_joins =
     (\<lparr>events = [1 \<mapsto> an_event 2 0 Upcoming []], rsvps = []\<rparr>, [Join0 7 1, Join0 7 1])"

text \<open>Users 7 and 8 ask for the last spot of event 1.\<close>

definition last_spot :: config where
  "last_spot =
     (\<lparr>events = [1 \<mapsto> an_event 1 0 Upcoming []], rsvps = []\<rparr>, [Join0 7 1, Join0 8 1])"

text \<open>An event whose capacity is 2.5, and nobody attending.\<close>

definition half_spot :: ledgers where
  "half_spot = \<lparr>events = [1 \<mapsto> an_event (5 / 2) 0 Upcoming []], rsvps = []\<rparr>"

section \<open>Invariants of the two ledgers\<close>

text \<open>The number of confirmed reservations of an event.\<close>

definition confirmed_count :: "eventId \<Rightarrow> ledgers \<Rightarrow> nat" where
  "confirmed_count e db =
     length (filter (\<lambda>r. event r = e \<and> rstatus r = Confirmed) (rsvps db))"

text \<open>The counter of every event is the number of its confirmed reservations.\<close>

definition count_inv :: "ledgers \<Rightarrow> bool" where
  "count_inv db =
     (\<forall>e ev. events db e = Some ev \<longrightarrow> currentAttendees ev = real (confirmed_count e db))"

text \<open>No counter is above its capacity.\<close>

definition cap_inv :: "ledgers \<Rightarrow> bool" where
  "cap_inv db = (\<forall>e ev. events db e = Some ev \<longrightarrow> currentAttendees ev \<le> capacity ev)"

text \<open>Every counter is below its capacity plus one.\<close>

definition slack_inv :: "ledgers \<Rightarrow> bool" where
  "slack_inv db =
     (\<forall>e ev. events db e = Some ev \<longrightarrow> currentAttendees ev < capacity ev + 1)"

text \<open>Every capacity and every counter is a whole number.\<close>

definition int_inv :: "ledgers \<Rightarrow> bool" where
  "int_inv db =
     (\<forall>e ev. events db e = Some ev \<longrightarrow> capacity ev \<in> \<int> \<and> currentAttendees ev \<in> \<int>)"

text \<open>What the unique index \<open>{user: 1, event: 1}\<close> keeps: one record per pair.\<close>

definition uniq_inv :: "ledgers \<Rightarrow> bool" where
  "uniq_inv db = distinct (map (\<lambda>r. (user r, event r)) (rsvps db))"

text \<open>Every stored record is confirmed: the controllers insert confirmed records only
  and never change the status of a stored one.\<close>

definition only_confirmed :: "ledgers \<Rightarrow> bool" where
  "only_confirmed db = list_all (\<lambda>r. rstatus r = Confirmed) (rsvps db)"

section \<open>Basic facts about the store operations\<close>

lemmas store_defs = createRSVP_def cancelRSVP_def deleteAccount_def
  RSVP_findOne_def Event_findOneAndUpdate_def Event_findByIdAndUpdate_def RSVP_create_def
  RSVP_presave_def RSVP_insert_def RSVP_findOneAndDelete_def createRSVP_catch_def
  new_rsvp_def confirmed_for_def same_pair_def addToSet_def pull_def an_event_def Let_def

lemma RSVP_findOne_None_iff:
  "RSVP_findOne u e db = None \<longleftrightarrow> (\<forall>r \<in> set (rsvps db). \<not> confirmed_for u e r)"
  by (auto simp: RSVP_findOne_def find_None_iff)

lemma RSVP_findOne_SomeD:
  "RSVP_findOne u e db = Some r \<Longrightarrow> r \<in> set (rsvps db) \<and> confirmed_for u e r"
  by (auto simp: RSVP_findOne_def find_Some_iff)

lemma RSVP_findOne_events [simp]:
  "RSVP_findOne u e (db\<lparr>events := evs\<rparr>) = RSVP_findOne u e db"
  by (simp add: RSVP_findOne_def)

lemma Event_findOneAndUpdate_rsvps [simp]:
  "rsvps (snd (Event_findOneAndUpdate e u db)) = rsvps db"
  by (simp add: Event_findOneAndUpdate_def Let_def split: option.splits)

lemma Event_findByIdAndUpdate_rsvps [simp]:
  "rsvps (snd (Event_findByIdAndUpdate e u db)) = rsvps db"
  by (simp add: Event_findByIdAndUpdate_def Let_def split: option.splits)

lemma Event_findOneAndUpdate_rsvpsD:
  "Event_findOneAndUpdate e u db = (x, db') \<Longrightarrow> rsvps db' = rsvps db"
  using Event_findOneAndUpdate_rsvps [of e u db] by simp

lemma Event_findByIdAndUpdate_rsvpsD:
  "Event_findByIdAndUpdate e u db = (x, db') \<Longrightarrow> rsvps db' = rsvps db"
  using Event_findByIdAndUpdate_rsvps [of e u db] by simp

text \<open>The hooks that the reservation path never trips.\<close>

lemma pre_save_capacity_ok:
  "pre_save_capacity ev = Inr ev \<longleftrightarrow> currentAttendees ev \<le> capacity ev"
  by (simp add: pre_save_capacity_def)

lemma pre_save_cancellation_confirmed:
  "rstatus r = Confirmed \<Longrightarrow> pre_save_cancellation now modified r = r"
  by (simp add: pre_save_cancellation_def)

subsection \<open>A request alone is the controller function\<close>

lemma createRSVP_as_steps:
  "run_sched [0, 0, 0, 0] (db, [Join0 u e])
     = (snd (createRSVP u e db), [Done (fst (createRSVP u e db))])"
  by (simp add: step_at_def createRSVP_def RSVP_create_def
      split: option.splits prod.splits sum.splits)

lemma cancelRSVP_as_steps:
  "run_sched [0, 0] (db, [Leave0 u e])
     = (snd (cancelRSVP u e db), [Done (fst (cancelRSVP u e db))])"
  by (simp add: step_at_def cancelRSVP_def split: option.splits prod.splits sum.splits)

subsection \<open>The four outcomes of \<open>createRSVP\<close> and the success of \<open>cancelRSVP\<close>\<close>

lemma createRSVP_already:
  assumes "list_ex (confirmed_for u e) (rsvps db)"
  shows "createRSVP u e db = (AlreadyRSVPd, db)"
proof -
  from assms have "RSVP_findOne u e db \<noteq> None"
    by (auto simp: RSVP_findOne_None_iff list_ex_iff)
  then show ?thesis
    by (auto simp: createRSVP_def)
qed

lemma createRSVP_missing:
  assumes "events db e = None" and "\<not> list_ex (confirmed_for u e) (rsvps db)"
  shows "createRSVP u e db = (FullOrMissing, db)"
proof -
  from assms(2) have none: "RSVP_findOne u e db = None"
    by (auto simp: RSVP_findOne_None_iff list_ex_iff)
  show ?thesis
    using assms none
    by (simp add: createRSVP_def Event_findOneAndUpdate_def)
qed

lemma createRSVP_full:
  assumes "events db e = Some ev" and "\<not> currentAttendees ev < capacity ev"
    and "\<not> list_ex (confirmed_for u e) (rsvps db)"
  shows "createRSVP u e db = (FullOrMissing, db)"
proof -
  from assms(3) have none: "RSVP_findOne u e db = None"
    by (auto simp: RSVP_findOne_None_iff list_ex_iff)
  show ?thesis
    using assms none
    by (simp add: createRSVP_def Event_findOneAndUpdate_def)
qed

lemma createRSVP_success:
  assumes "events db e = Some ev" and "currentAttendees ev < capacity ev"
    and "\<not> list_ex (same_pair u e) (rsvps db)"
  shows "createRSVP u e db =
     (Created (new_rsvp u e) (capacity ev - (currentAttendees ev + 1)),
      db\<lparr>events := (events db)(e \<mapsto> ev\<lparr>currentAttendees := currentAttendees ev + 1,
                                        attendees := addToSet u (attendees ev)\<rparr>),
         rsvps := rsvps db @ [new_rsvp u e]\<rparr>)"
proof -
  from assms(3) have none: "RSVP_findOne u e db = None"
    by (auto simp: RSVP_findOne_None_iff list_ex_iff same_pair_def confirmed_for_def)
  show ?thesis
    using assms none
    by (simp add: createRSVP_def Event_findOneAndUpdate_def RSVP_create_def RSVP_presave_def
        RSVP_insert_def Let_def)
qed

lemma cancelRSVP_success:
  assumes "RSVP_findOne u e db = Some r" and "events db e = Some ev"
  shows "cancelRSVP u e db =
     (CancelledOk (capacity ev - (currentAttendees ev - 1)),
      db\<lparr>rsvps := remove1 r (rsvps db),
         events := (events db)(e \<mapsto> ev\<lparr>currentAttendees := currentAttendees ev - 1,
                                        attendees := pull u (attendees ev)\<rparr>)\<rparr>)"
  using assms
  by (simp add: cancelRSVP_def RSVP_findOneAndDelete_def Event_findByIdAndUpdate_def Let_def)

lemma only_confirmed_no_pair:
  assumes "only_confirmed db" and "\<forall>r \<in> set (rsvps db). \<not> confirmed_for u e r"
  shows "\<not> list_ex (same_pair u e) (rsvps db)"
  using assms
  by (auto simp: only_confirmed_def list_all_iff list_ex_iff same_pair_def confirmed_for_def)

section \<open>Leave\<close>

text \<open>
  Claim C8. \<open>cancelRSVP\<close> called when the ledger holds no confirmed reservation of the
  pair answers 404 "RSVP not found" and returns both collections as they were: the
  counter, the attendee array and every reservation record.
\<close>

theorem cancelRSVP_no_reservation:
  assumes "\<forall>r \<in> set (rsvps db). \<not> confirmed_for u e r"
  shows "cancelRSVP u e db = (RSVPNotFound, db)"
proof -
  from assms have "RSVP_findOne u e db = None"
    by (simp add: RSVP_findOne_None_iff)
  then show ?thesis
    by (simp add: cancelRSVP_def RSVP_findOneAndDelete_def)
qed

theorem cancelRSVP_no_reservation_witness:
  "cancelRSVP 7 1 \<lparr>events = [1 \<mapsto> an_event 5 1 Upcoming [8]], rsvps = [new_rsvp 8 1]\<rparr>
   = (RSVPNotFound, \<lparr>events = [1 \<mapsto> an_event 5 1 Upcoming [8]], rsvps = [new_rsvp 8 1]\<rparr>)"
  by (rule cancelRSVP_no_reservation) (simp add: confirmed_for_def new_rsvp_def)

text \<open>
  Claim C9 says that a successful Leave keeps the record, with the status cancelled and
  a cancellation date. The controller calls \<open>findOneAndDelete\<close>: after user 7 leaves
  event 1 the ledger that held the one record of the pair is empty.
\<close>

theorem cancelRSVP_keeps_record_counterexample:
  "fst (cancelRSVP 7 1 \<lparr>events = [1 \<mapsto> an_event 5 1 Upcoming [7]], rsvps = [new_rsvp 7 1]\<rparr>)
     = CancelledOk 5
   \<and> rsvps (snd (cancelRSVP 7 1
        \<lparr>events = [1 \<mapsto> an_event 5 1 Upcoming [7]], rsvps = [new_rsvp 7 1]\<rparr>)) = []"
  by (simp add: store_defs)

text \<open>
  Claim C9, amended. A successful \<open>cancelRSVP\<close> (response 200) removes the first
  confirmed record of the pair from the RSVP collection: the collection afterwards is
  the one before with that record deleted, one record shorter, and no record is given
  the status cancelled or a cancellation date.
\<close>

theorem cancelRSVP_deletes_record:
  assumes "fst (cancelRSVP u e db) = CancelledOk n"
  shows "\<exists>r. RSVP_findOne u e db = Some r \<and> r \<in> set (rsvps db) \<and> confirmed_for u e r
           \<and> rsvps (snd (cancelRSVP u e db)) = remove1 r (rsvps db)
           \<and> length (rsvps (snd (cancelRSVP u e db))) + 1 = length (rsvps db)"
proof (cases "RSVP_findOne u e db")
  case None
  with assms show ?thesis
    by (simp add: cancelRSVP_def RSVP_findOneAndDelete_def)
next
  case (Some r)
  then have mem: "r \<in> set (rsvps db)" and conf: "confirmed_for u e r"
    using RSVP_findOne_SomeD by blast+
  have "rsvps (snd (cancelRSVP u e db)) = remove1 r (rsvps db)"
    using Some
    by (simp add: cancelRSVP_def RSVP_findOneAndDelete_def Event_findByIdAndUpdate_def Let_def
        split: option.split)
  moreover from mem have "length (remove1 r (rsvps db)) + 1 = length (rsvps db)"
    using length_pos_if_in_set [OF mem] by (simp add: length_remove1)
  ultimately show ?thesis using Some mem conf by simp
qed

theorem cancelRSVP_deletes_record_witness:
  "fst (cancelRSVP 8 1 \<lparr>events = [1 \<mapsto> an_event 5 2 Upcoming [7, 8]],
                          rsvps = [new_rsvp 7 1, new_rsvp 8 1]\<rparr>) = CancelledOk 4
   \<and> rsvps (snd (cancelRSVP 8 1 \<lparr>events = [1 \<mapsto> an_event 5 2 Upcoming [7, 8]],
                          rsvps = [new_rsvp 7 1, new_rsvp 8 1]\<rparr>)) = [new_rsvp 7 1]"
proof -
  let ?db = "\<lparr>events = [1 \<mapsto> an_event 5 2 Upcoming [7, 8]],
              rsvps = [new_rsvp 7 1, new_rsvp 8 1]\<rparr>"
  have ok: "fst (cancelRSVP 8 1 ?db) = CancelledOk 4"
    by (simp add: store_defs)
  have found: "RSVP_findOne 8 1 ?db = Some (new_rsvp 8 1)"
    by (simp add: store_defs)
  from cancelRSVP_deletes_record [OF ok] found
  have "rsvps (snd (cancelRSVP 8 1 ?db)) = remove1 (new_rsvp 8 1) (rsvps ?db)"
    by auto
  then have "rsvps (snd (cancelRSVP 8 1 ?db)) = [new_rsvp 7 1]"
    by (simp add: new_rsvp_def)
  with ok show ?thesis by simp
qed

section \<open>Status\<close>

text \<open>
  Claim C10 says that \<open>checkRSVPStatus\<close> produces a success response for every
  \<open>eventId\<close>. The parameter is a string of the route: on one that is no object id
  \<open>RSVP.findOne\<close> rejects and the \<open>catch\<close> block answers 500.
\<close>

theorem checkRSVPStatus_bad_id_counterexample:
  "checkRSVPStatus 7 BadId \<lparr>events = [1 \<mapsto> an_event 5 1 Upcoming [7]], rsvps = [new_rsvp 7 1]\<rparr>
   = (ServerError, \<lparr>events = [1 \<mapsto> an_event 5 1 Upcoming [7]], rsvps = [new_rsvp 7 1]\<rparr>)"
  by (simp add: checkRSVPStatus_def)

text \<open>
  Claim C10, amended. \<open>checkRSVPStatus\<close> never changes a collection. For an \<open>eventId\<close>
  that is an object id it answers 200 with a boolean: \<open>hasRSVP\<close> is true exactly when a
  confirmed record of the pair is stored. It does not read the Event collection, so
  for an event that does not exist and that no reservation record refers to, the
  answer is 200 with \<open>hasRSVP = false\<close> and not a "not found". For an \<open>eventId\<close> that
  is no object id it answers 500.
\<close>

theorem checkRSVPStatus_read_only:
  "snd (checkRSVPStatus u p db) = db
   \<and> checkRSVPStatus u (GoodId e) db
       = (StatusOk (list_ex (confirmed_for u e) (rsvps db)) (RSVP_findOne u e db), db)
   \<and> (events db e = None \<and> \<not> list_ex (\<lambda>r. event r = e) (rsvps db)
        \<longrightarrow> checkRSVPStatus u (GoodId e) db = (StatusOk False None, db))
   \<and> checkRSVPStatus u BadId db = (ServerError, db)"
proof -
  have iff: "(RSVP_findOne u e db \<noteq> None) = list_ex (confirmed_for u e) (rsvps db)"
    by (auto simp: RSVP_findOne_def find_None_iff list_ex_iff)
  have good: "checkRSVPStatus u (GoodId e) db
       = (StatusOk (list_ex (confirmed_for u e) (rsvps db)) (RSVP_findOne u e db), db)"
    using iff by (simp add: checkRSVPStatus_def Let_def)
  have same: "snd (checkRSVPStatus u p db) = db"
    by (cases p) (simp_all add: checkRSVPStatus_def Let_def)
  have bad: "checkRSVPStatus u BadId db = (ServerError, db)"
    by (simp add: checkRSVPStatus_def)
  have missing: "checkRSVPStatus u (GoodId e) db = (StatusOk False None, db)"
    if "\<not> list_ex (\<lambda>r. event r = e) (rsvps db)"
  proof -
    from that have no: "\<not> list_ex (confirmed_for u e) (rsvps db)"
      by (auto simp: list_ex_iff confirmed_for_def)
    with iff have "RSVP_findOne u e db = None" by simp
    with good no show ?thesis by simp
  qed
  from same good missing bad show ?thesis by blast
qed

theorem checkRSVPStatus_read_only_witness:
  "events \<lparr>events = [1 \<mapsto> an_event 5 1 Upcoming [7]], rsvps = [new_rsvp 7 1]\<rparr> 2 = None
   \<and> checkRSVPStatus 7 (GoodId 2)
        \<lparr>events = [1 \<mapsto> an_event 5 1 Upcoming [7]], rsvps = [new_rsvp 7 1]\<rparr>
     = (StatusOk False None,
        \<lparr>events = [1 \<mapsto> an_event 5 1 Upcoming [7]], rsvps = [new_rsvp 7 1]\<rparr>)
   \<and> checkRSVPStatus 7 (GoodId 1)
        \<lparr>events = [1 \<mapsto> an_event 5 1 Upcoming [7]], rsvps = [new_rsvp 7 1]\<rparr>
     = (StatusOk True (Some (new_rsvp 7 1)),
        \<lparr>events = [1 \<mapsto> an_event 5 1 Upcoming [7]], rsvps = [new_rsvp 7 1]\<rparr>)"
proof -
  let ?db = "\<lparr>events = [1 \<mapsto> an_event 5 1 Upcoming [7]], rsvps = [new_rsvp 7 1]\<rparr>"
  have gone: "events ?db 2 = None" by simp
  have unref: "\<not> list_ex (\<lambda>r. event r = 2) (rsvps ?db)"
    by (simp add: new_rsvp_def)
  from checkRSVPStatus_read_only [of 7 "GoodId 2" ?db 2] gone unref
  have a: "checkRSVPStatus 7 (GoodId 2) ?db = (StatusOk False None, ?db)"
    by blast
  from checkRSVPStatus_read_only [of 7 "GoodId 1" ?db 1]
  have "checkRSVPStatus 7 (GoodId 1) ?db
       = (StatusOk (list_ex (confirmed_for 7 1) (rsvps ?db)) (RSVP_findOne 7 1 ?db), ?db)"
    by blast
  then have b: "checkRSVPStatus 7 (GoodId 1) ?db = (StatusOk True (Some (new_rsvp 7 1)), ?db)"
    by (simp add: RSVP_findOne_def confirmed_for_def new_rsvp_def)
  from gone a b show ?thesis by blast
qed

text \<open>
  A reservation can outlive its event: \<open>deleteAccount\<close> deletes the events of the
  organizer and not the reservations that other users hold for them (\<open>deleteEvent\<close>
  deletes both). User 7 joins event 1 and its organizer, user 9, deletes the account:
  the record of user 7 stays and refers to an event that is gone.
\<close>

lemma deleteAccount_leaves_reservations:
  "events (deleteAccount 9 (snd (createRSVP 7 1
      \<lparr>events = [1 \<mapsto> an_event 5 0 Upcoming []], rsvps = []\<rparr>))) 1 = None
   \<and> rsvps (deleteAccount 9 (snd (createRSVP 7 1
      \<lparr>events = [1 \<mapsto> an_event 5 0 Upcoming []], rsvps = []\<rparr>))) = [new_rsvp 7 1]"
  by (simp add: store_defs)

section \<open>Lifecycle status\<close>

text \<open>
  Claim C6 says that a status of cancelled overrides the derivation and is never
  recomputed. The save hook has no such case: saving a cancelled event whose date is
  ahead sets its status to upcoming.
\<close>

theorem pre_save_status_cancelled_counterexample:
  "status (pre_save_status 0 (an_event 5 0 Cancelled [])) = Upcoming"
  by (simp add: pre_save_status_def an_event_def)

text \<open>
  Claim C6, amended. For every event and every \<open>now\<close>, the save hook sets the status to
  upcoming when \<open>now < date\<close>, to ongoing when \<open>date \<le> now < date + 4 hours\<close> and to
  completed when \<open>now \<ge> date + 4 hours\<close> (14400000 ms), whatever the stored status was,
  cancelled included; it changes no other field.
\<close>

theorem pre_save_status_derivation:
  "pre_save_status now ev =
     ev\<lparr>status := (if now < date ev then Upcoming
                   else if now < date ev + 14400000 then Ongoing
                   else Completed)\<rparr>"
  by (simp add: pre_save_status_def Let_def)

section \<open>Invariants under every interleaving\<close>

subsection \<open>The counter and the capacity\<close>

lemma cap_inv_rsvps [simp]: "cap_inv (db\<lparr>rsvps := rs\<rparr>) = cap_inv db"
  by (simp add: cap_inv_def)

lemma int_inv_rsvps [simp]: "int_inv (db\<lparr>rsvps := rs\<rparr>) = int_inv db"
  by (simp add: int_inv_def)

lemma slack_inv_rsvps [simp]: "slack_inv (db\<lparr>rsvps := rs\<rparr>) = slack_inv db"
  by (simp add: slack_inv_def)

text \<open>The step from \<open>x < c\<close> to \<open>x + 1 \<le> c\<close> is a fact of whole numbers.\<close>

lemma Ints_less_add1:
  fixes x c :: real
  assumes "x \<in> \<int>" and "c \<in> \<int>" and "x < c"
  shows "x + 1 \<le> c"
proof -
  from assms(1) obtain m :: int where m: "x = of_int m" by (auto elim: Ints_cases)
  from assms(2) obtain n :: int where n: "c = of_int n" by (auto elim: Ints_cases)
  from assms(3) m n have "m < n" by simp
  then have "m + 1 \<le> n" by simp
  then have "(of_int (m + 1) :: real) \<le> of_int n" by (simp only: of_int_le_iff)
  with m n show ?thesis by simp
qed

lemma Event_findOneAndUpdate_SomeD:
  assumes "Event_findOneAndUpdate e u db = (Some ev', db')"
  shows "\<exists>ev. events db e = Some ev \<and> currentAttendees ev < capacity ev
            \<and> ev' = ev\<lparr>currentAttendees := currentAttendees ev + 1,
                         attendees := addToSet u (attendees ev)\<rparr>
            \<and> db' = db\<lparr>events := (events db)(e \<mapsto> ev')\<rparr>"
  using assms
  by (auto simp: Event_findOneAndUpdate_def Let_def split: option.splits if_splits)

lemma Event_findOneAndUpdate_NoneD:
  assumes "Event_findOneAndUpdate e u db = (None, db')"
  shows "db' = db
       \<and> (\<forall>ev. events db e = Some ev \<longrightarrow> \<not> currentAttendees ev < capacity ev)"
  using assms
  by (auto simp: Event_findOneAndUpdate_def Let_def split: option.splits if_splits)

lemma Event_findByIdAndUpdate_SomeD:
  assumes "Event_findByIdAndUpdate e u db = (Some ev', db')"
  shows "\<exists>ev. events db e = Some ev
            \<and> ev' = ev\<lparr>currentAttendees := currentAttendees ev - 1,
                         attendees := pull u (attendees ev)\<rparr>
            \<and> db' = db\<lparr>events := (events db)(e \<mapsto> ev')\<rparr>"
  using assms
  by (auto simp: Event_findByIdAndUpdate_def Let_def split: option.splits)

lemma Event_findByIdAndUpdate_NoneD:
  "Event_findByIdAndUpdate e u db = (None, db') \<Longrightarrow> db' = db"
  by (auto simp: Event_findByIdAndUpdate_def Let_def split: option.splits)

text \<open>Whole capacities and counters stay whole, and with them the counter stays within
  the capacity, through the gate and through the decrement.\<close>

lemma Event_findOneAndUpdate_cap_int:
  assumes "cap_inv db" and "int_inv db"
  shows "cap_inv (snd (Event_findOneAndUpdate e u db))
       \<and> int_inv (snd (Event_findOneAndUpdate e u db))"
proof (cases "Event_findOneAndUpdate e u db")
  case (Pair r db')
  show ?thesis
  proof (cases r)
    case None
    with Pair have "db' = db" by (simp add: Event_findOneAndUpdate_NoneD)
    with Pair assms show ?thesis by simp
  next
    case (Some ev')
    with Pair obtain ev where ev: "events db e = Some ev"
      and lt: "currentAttendees ev < capacity ev"
      and ev': "ev' = ev\<lparr>currentAttendees := currentAttendees ev + 1,
                           attendees := addToSet u (attendees ev)\<rparr>"
      and db': "db' = db\<lparr>events := (events db)(e \<mapsto> ev')\<rparr>"
      using Event_findOneAndUpdate_SomeD by blast
    from assms(2) ev have ints: "capacity ev \<in> \<int>" "currentAttendees ev \<in> \<int>"
      by (simp_all add: int_inv_def)
    have le: "currentAttendees ev + 1 \<le> capacity ev"
      using ints lt by (intro Ints_less_add1)
    have "cap_inv db'"
      using assms(1) le by (simp add: db' ev' cap_inv_def)
    moreover have "int_inv db'"
      using assms(2) ints by (simp add: db' ev' int_inv_def)
    ultimately show ?thesis using Pair by simp
  qed
qed

lemma Event_findByIdAndUpdate_cap_int:
  assumes "cap_inv db" and "int_inv db"
  shows "cap_inv (snd (Event_findByIdAndUpdate e u db))
       \<and> int_inv (snd (Event_findByIdAndUpdate e u db))"
proof (cases "Event_findByIdAndUpdate e u db")
  case (Pair r db')
  show ?thesis
  proof (cases r)
    case None
    with Pair have "db' = db" by (simp add: Event_findByIdAndUpdate_NoneD)
    with Pair assms show ?thesis by simp
  next
    case (Some ev')
    with Pair obtain ev where ev: "events db e = Some ev"
      and ev': "ev' = ev\<lparr>currentAttendees := currentAttendees ev - 1,
                           attendees := pull u (attendees ev)\<rparr>"
      and db': "db' = db\<lparr>events := (events db)(e \<mapsto> ev')\<rparr>"
      using Event_findByIdAndUpdate_SomeD by blast
    from assms(2) ev have ints: "capacity ev \<in> \<int>" "currentAttendees ev \<in> \<int>"
      by (simp_all add: int_inv_def)
    from assms(1) ev have "currentAttendees ev \<le> capacity ev"
      by (simp add: cap_inv_def)
    then have "cap_inv db'"
      using assms(1) by (simp add: db' ev' cap_inv_def)
    moreover have "int_inv db'"
      using assms(2) ints by (simp add: db' ev' int_inv_def)
    ultimately show ?thesis using Pair by simp
  qed
qed

lemma step_proc_cap_int:
  assumes "cap_inv db" and "int_inv db"
  shows "cap_inv (snd (step_proc p db)) \<and> int_inv (snd (step_proc p db))"
proof (cases p)
  case (Join1 u e)
  then show ?thesis
    using Event_findOneAndUpdate_cap_int [OF assms, of e u]
    by (auto split: prod.splits option.splits)
next
  case (Leave1 u e)
  then show ?thesis
    using Event_findByIdAndUpdate_cap_int [OF assms, of e u]
    by (auto split: prod.splits option.splits)
next
  case (Join3 u e ev)
  then show ?thesis
    using assms by (simp add: RSVP_insert_def split: sum.splits)
next
  case (Leave0 u e)
  then show ?thesis
    using assms by (simp add: RSVP_findOneAndDelete_def split: option.splits)
qed (use assms in \<open>simp_all split: option.splits sum.splits\<close>)

lemma step_at_cap_int:
  assumes "cap_inv (fst c)" and "int_inv (fst c)"
  shows "cap_inv (fst (step_at i c)) \<and> int_inv (fst (step_at i c))"
  using step_proc_cap_int [OF assms, of "snd c ! i"] assms
  by (cases c) (auto simp: step_at_def split: prod.splits)

text \<open>
  For events whose capacity and counter are whole numbers: take any store in which no
  counter is above its capacity, any requests in flight and any schedule of their
  store calls; in the store that results no counter is above its capacity.
\<close>

lemma run_sched_cap_int:
  "cap_inv (fst c) \<Longrightarrow> int_inv (fst c)
   \<Longrightarrow> cap_inv (fst (run_sched sched c)) \<and> int_inv (fst (run_sched sched c))"
proof (induction sched arbitrary: c)
  case Nil
  then show ?case by simp
next
  case (Cons i sched)
  from step_at_cap_int [OF Cons.prems, of i]
  have "cap_inv (fst (step_at i c))" and "int_inv (fst (step_at i c))"
    by simp_all
  then show ?case by (simp add: Cons.IH)
qed

text \<open>Two users race for the last spot of an event of capacity 1: one gets it and the
  gate turns the other away.\<close>

lemma last_spot_race:
  "run_sched [0, 1, 0, 1, 0, 0] last_spot
     = (\<lparr>events = [1 \<mapsto> an_event 1 1 Upcoming [7]], rsvps = [new_rsvp 7 1]\<rparr>,
        [Done (Created (new_rsvp 7 1) 0), Done FullOrMissing])"
  by (simp add: last_spot_def step_at_def store_defs)

text \<open>For every capacity, whole or not, the counter stays below the capacity plus one.\<close>

lemma step_proc_slack_inv:
  assumes "slack_inv db"
  shows "slack_inv (snd (step_proc p db))"
proof (cases p)
  case (Join1 u e)
  show ?thesis
  proof (cases "Event_findOneAndUpdate e u db")
    case (Pair r db')
    show ?thesis
    proof (cases r)
      case None
      with Pair have "db' = db" by (simp add: Event_findOneAndUpdate_NoneD)
      with Pair None Join1 assms show ?thesis by simp
    next
      case (Some ev')
      with Pair obtain ev where "events db e = Some ev"
        and "currentAttendees ev < capacity ev"
        and "ev' = ev\<lparr>currentAttendees := currentAttendees ev + 1,
                       attendees := addToSet u (attendees ev)\<rparr>"
        and "db' = db\<lparr>events := (events db)(e \<mapsto> ev')\<rparr>"
        using Event_findOneAndUpdate_SomeD by blast
      with assms have "slack_inv db'"
        by (simp add: slack_inv_def)
      with Pair Some Join1 show ?thesis by simp
    qed
  qed
next
  case (Leave1 u e)
  show ?thesis
  proof (cases "Event_findByIdAndUpdate e u db")
    case (Pair r db')
    show ?thesis
    proof (cases r)
      case None
      with Pair have "db' = db" by (simp add: Event_findByIdAndUpdate_NoneD)
      with Pair None Leave1 assms show ?thesis by simp
    next
      case (Some ev')
      with Pair obtain ev where ev: "events db e = Some ev"
        and ev': "ev' = ev\<lparr>currentAttendees := currentAttendees ev - 1,
                       attendees := pull u (attendees ev)\<rparr>"
        and db': "db' = db\<lparr>events := (events db)(e \<mapsto> ev')\<rparr>"
        using Event_findByIdAndUpdate_SomeD by blast
      from assms ev have "currentAttendees ev < capacity ev + 1"
        by (simp add: slack_inv_def)
      with assms have "slack_inv db'"
        by (simp add: db' ev' slack_inv_def)
      with Pair Some Leave1 show ?thesis by simp
    qed
  qed
next
  case (Join3 u e ev)
  then show ?thesis
    using assms by (simp add: RSVP_insert_def split: sum.splits)
next
  case (Leave0 u e)
  then show ?thesis
    using assms by (simp add: RSVP_findOneAndDelete_def split: option.splits)
qed (use assms in \<open>simp_all split: option.splits sum.splits\<close>)

lemma run_sched_slack_inv:
  "slack_inv (fst c) \<Longrightarrow> slack_inv (fst (run_sched sched c))"
proof (induction sched arbitrary: c)
  case Nil
  then show ?case by simp
next
  case (Cons i sched)
  have "slack_inv (fst (step_at i c))"
    using step_proc_slack_inv [OF Cons.prems, of "snd c ! i"] Cons.prems
    by (cases c) (auto simp: step_at_def split: prod.splits)
  then show ?case by (simp add: Cons.IH)
qed

text \<open>
  Claim C3 says that no counter ever passes its capacity. The gate compares with \<open><\<close>
  and adds 1, which keeps the counter within a whole capacity only. The validators of
  \<open>capacity\<close> admit 2.5, and \<open>createEvent\<close> stores it. Users 7, 8 and 9 join such an
  event one after the other: every request answers 201, the third passes the gate
  because 2 < 2.5, and the counter is 3 with \<open>availableSpots\<close> -0.5. The document is
  one that the save hook of the schema itself ("Current attendees cannot exceed
  capacity") refuses.
\<close>

theorem gate_passes_fractional_capacity:
  "capacity_validators (5 / 2)
   \<and> fst (createRSVP 7 1 half_spot) = Created (new_rsvp 7 1) (3 / 2)
   \<and> fst (createRSVP 8 1 (snd (createRSVP 7 1 half_spot))) = Created (new_rsvp 8 1) (1 / 2)
   \<and> createRSVP 9 1 (snd (createRSVP 8 1 (snd (createRSVP 7 1 half_spot))))
       = (Created (new_rsvp 9 1) (- (1 / 2)),
          \<lparr>events = [1 \<mapsto> an_event (5 / 2) 3 Upcoming [7, 8, 9]],
           rsvps = [new_rsvp 7 1, new_rsvp 8 1, new_rsvp 9 1]\<rparr>)
   \<and> pre_save_capacity (an_event (5 / 2) 3 Upcoming [7, 8, 9]) = Inl OtherError"
proof -
  have v: "capacity_validators (5 / 2)"
    by (simp add: capacity_validators_def)
  have j1: "createRSVP 7 1 half_spot
     = (Created (new_rsvp 7 1) (3 / 2),
        \<lparr>events = [1 \<mapsto> an_event (5 / 2) 1 Upcoming [7]], rsvps = [new_rsvp 7 1]\<rparr>)"
    by (simp add: half_spot_def store_defs)
  have j2: "createRSVP 8 1
        \<lparr>events = [1 \<mapsto> an_event (5 / 2) 1 Upcoming [7]], rsvps = [new_rsvp 7 1]\<rparr>
     = (Created (new_rsvp 8 1) (1 / 2),
        \<lparr>events = [1 \<mapsto> an_event (5 / 2) 2 Upcoming [7, 8]],
         rsvps = [new_rsvp 7 1, new_rsvp 8 1]\<rparr>)"
    by (simp add: store_defs)
  have j3: "createRSVP 9 1
        \<lparr>events = [1 \<mapsto> an_event (5 / 2) 2 Upcoming [7, 8]],
         rsvps = [new_rsvp 7 1, new_rsvp 8 1]\<rparr>
     = (Created (new_rsvp 9 1) (- (1 / 2)),
        \<lparr>events = [1 \<mapsto> an_event (5 / 2) 3 Upcoming [7, 8, 9]],
         rsvps = [new_rsvp 7 1, new_rsvp 8 1, new_rsvp 9 1]\<rparr>)"
    by (simp add: store_defs)
  have h: "pre_save_capacity (an_event (5 / 2) 3 Upcoming [7, 8, 9]) = Inl OtherError"
    by (simp add: pre_save_capacity_def an_event_def)
  from v j1 j2 j3 h show ?thesis by (simp only: fst_conv snd_conv)
qed

text \<open>In terms of the invariant: it holds of that event before the three requests and
  fails after them.\<close>

lemma half_spot_breaks_cap_inv:
  "cap_inv half_spot
   \<and> \<not> cap_inv \<lparr>events = [1 \<mapsto> an_event (5 / 2) 3 Upcoming [7, 8, 9]],
                  rsvps = [new_rsvp 7 1, new_rsvp 8 1, new_rsvp 9 1]\<rparr>"
  by (simp add: half_spot_def cap_inv_def an_event_def)

subsection \<open>One record for each pair\<close>

lemma RSVP_insert_uniq_inv:
  "uniq_inv db \<Longrightarrow> RSVP_insert u e db = Inr (r, db') \<Longrightarrow> uniq_inv db'"
  by (auto simp: RSVP_insert_def uniq_inv_def list_ex_iff same_pair_def new_rsvp_def
      split: if_splits)

lemma distinct_map_remove1:
  "distinct (map f xs) \<Longrightarrow> distinct (map f (remove1 x xs))"
proof (induction xs)
  case Nil
  then show ?case by simp
next
  case (Cons a xs)
  have "set (remove1 x xs) \<subseteq> set xs" by (rule set_remove1_subset)
  then have "f ` set (remove1 x xs) \<subseteq> f ` set xs" by blast
  with Cons show ?case by auto
qed

lemma RSVP_findOneAndDelete_uniq_inv:
  "uniq_inv db \<Longrightarrow> uniq_inv (snd (RSVP_findOneAndDelete u e db))"
  by (simp add: RSVP_findOneAndDelete_def uniq_inv_def distinct_map_remove1
      split: option.splits)

lemma step_proc_uniq_inv:
  assumes "uniq_inv db"
  shows "uniq_inv (snd (step_proc p db))"
proof (cases p)
  case (Join1 u e)
  have "uniq_inv (snd (Event_findOneAndUpdate e u db))"
    using assms by (simp add: uniq_inv_def)
  with Join1 show ?thesis
    by (auto split: prod.splits option.splits)
next
  case (Leave1 u e)
  have "uniq_inv (snd (Event_findByIdAndUpdate e u db))"
    using assms by (simp add: uniq_inv_def)
  with Leave1 show ?thesis
    by (auto split: prod.splits option.splits)
next
  case (Join3 u e ev)
  then show ?thesis
    using assms RSVP_insert_uniq_inv [OF assms, of u e]
    by (auto split: sum.splits)
next
  case (Leave0 u e)
  then show ?thesis
    using RSVP_findOneAndDelete_uniq_inv [OF assms, of u e]
    by (auto split: prod.splits option.splits)
qed (use assms in \<open>simp_all split: option.splits sum.splits\<close>)

lemma step_at_uniq_inv: "uniq_inv (fst c) \<Longrightarrow> uniq_inv (fst (step_at i c))"
  using step_proc_uniq_inv [of "fst c" "snd c ! i"]
  by (cases c) (auto simp: step_at_def split: prod.splits)

lemma run_sched_uniq_inv: "uniq_inv (fst c) \<Longrightarrow> uniq_inv (fst (run_sched sched c))"
  by (induction sched arbitrary: c) (simp_all add: step_at_uniq_inv)

lemma distinct_keys_filter_le1:
  "distinct (map f xs) \<Longrightarrow> length (filter (\<lambda>x. f x = k \<and> P x) xs) \<le> 1"
proof (induction xs)
  case Nil
  then show ?case by simp
next
  case (Cons x xs)
  show ?case
  proof (cases "f x = k")
    case True
    from Cons.prems have "f x \<notin> f ` set xs" by simp
    with True have "\<forall>y \<in> set xs. f y \<noteq> k" by blast
    then have "filter (\<lambda>x. f x = k \<and> P x) xs = []"
      by (simp add: filter_empty_conv)
    then show ?thesis by simp
  next
    case False
    with Cons show ?thesis by simp
  qed
qed

lemma uniq_inv_confirmed_le1:
  assumes "uniq_inv db"
  shows "length (filter (confirmed_for u e) (rsvps db)) \<le> 1"
proof -
  have "confirmed_for u e = (\<lambda>r. (user r, event r) = (u, e) \<and> rstatus r = Confirmed)"
    by (auto simp: confirmed_for_def fun_eq_iff)
  then show ?thesis
    using distinct_keys_filter_le1 [of "\<lambda>r. (user r, event r)" "rsvps db" "(u, e)"
        "\<lambda>r. rstatus r = Confirmed"] assms
    by (simp add: uniq_inv_def)
qed

text \<open>
  Claim C4. Take any store that respects the unique index on (user, event), any
  requests in flight and any schedule of their store calls: in the store that results
  every pair has at most one confirmed record. A \<open>createRSVP\<close> for a pair that has a
  confirmed record answers 400 "You have already RSVP'd to this event" and leaves the
  store as it was, so no second record is made.
\<close>

theorem at_most_one_confirmed:
  assumes "uniq_inv db"
  shows "length (filter (confirmed_for u e) (rsvps (fst (run_sched sched (db, ps))))) \<le> 1
       \<and> (list_ex (confirmed_for u e) (rsvps db) \<longrightarrow> createRSVP u e db = (AlreadyRSVPd, db))"
proof
  have "uniq_inv (fst (run_sched sched (db, ps)))"
    using run_sched_uniq_inv [of "(db, ps)" sched] assms by simp
  then show "length (filter (confirmed_for u e) (rsvps (fst (run_sched sched (db, ps))))) \<le> 1"
    by (rule uniq_inv_confirmed_le1)
next
  show "list_ex (confirmed_for u e) (rsvps db) \<longrightarrow> createRSVP u e db = (AlreadyRSVPd, db)"
    by (simp add: createRSVP_already)
qed

theorem at_most_one_confirmed_witness:
  "uniq_inv (fst two_joins)
   \<and> run_sched [0, 1, 0, 1, 0, 1, 0, 1] two_joins
       = (\<lparr>events = [1 \<mapsto> an_event 2 2 Upcoming [7]], rsvps = [new_rsvp 7 1]\<rparr>,
          [Done (Created (new_rsvp 7 1) 1), Done AlreadyRSVPd])
   \<and> length (filter (confirmed_for 7 1)
        (rsvps (fst (run_sched [0, 1, 0, 1, 0, 1, 0, 1] two_joins)))) \<le> 1
   \<and> createRSVP 7 1 \<lparr>events = [1 \<mapsto> an_event 2 1 Upcoming [7]], rsvps = [new_rsvp 7 1]\<rparr>
       = (AlreadyRSVPd, \<lparr>events = [1 \<mapsto> an_event 2 1 Upcoming [7]], rsvps = [new_rsvp 7 1]\<rparr>)"
proof -
  let ?db = "\<lparr>events = [1 \<mapsto> an_event 2 1 Upcoming [7]], rsvps = [new_rsvp 7 1]\<rparr>"
  have start: "uniq_inv (fst two_joins)"
    by (simp add: two_joins_def uniq_inv_def)
  have run: "run_sched [0, 1, 0, 1, 0, 1, 0, 1] two_joins
     = (\<lparr>events = [1 \<mapsto> an_event 2 2 Upcoming [7]], rsvps = [new_rsvp 7 1]\<rparr>,
        [Done (Created (new_rsvp 7 1) 1), Done AlreadyRSVPd])"
    by (simp add: two_joins_def step_at_def store_defs)
  have "length (filter (confirmed_for 7 1)
      (rsvps (fst (run_sched [0, 1, 0, 1, 0, 1, 0, 1] (fst two_joins, snd two_joins))))) \<le> 1"
    using at_most_one_confirmed [OF start] by blast
  then have one: "length (filter (confirmed_for 7 1)
      (rsvps (fst (run_sched [0, 1, 0, 1, 0, 1, 0, 1] two_joins)))) \<le> 1"
    by simp
  have u: "uniq_inv ?db"
    by (simp add: uniq_inv_def)
  have "list_ex (confirmed_for 7 1) (rsvps ?db)"
    by (simp add: confirmed_for_def new_rsvp_def)
  with at_most_one_confirmed [OF u, of 7 1] have "createRSVP 7 1 ?db = (AlreadyRSVPd, ?db)"
    by blast
  with start run one show ?thesis by blast
qed

section \<open>Join\<close>

subsection \<open>Every stored record is confirmed\<close>

lemma step_proc_rsvps:
  "rsvps (snd (step_proc p db)) = rsvps db
   \<or> (\<exists>u e. rsvps (snd (step_proc p db)) = rsvps db @ [new_rsvp u e])
   \<or> (\<exists>r. rsvps (snd (step_proc p db)) = remove1 r (rsvps db))"
proof (cases p)
  case (Join3 u e ev)
  then show ?thesis by (auto simp: RSVP_insert_def)
next
  case (Leave0 u e)
  then show ?thesis by (auto simp: RSVP_findOneAndDelete_def split: option.splits)
next
  case (Join1 u e)
  then have "rsvps (snd (step_proc p db)) = rsvps db"
    by (auto split: prod.splits option.splits dest: Event_findOneAndUpdate_rsvpsD)
  then show ?thesis ..
next
  case (Leave1 u e)
  then have "rsvps (snd (step_proc p db)) = rsvps db"
    by (auto split: prod.splits option.splits dest: Event_findByIdAndUpdate_rsvpsD)
  then show ?thesis ..
qed (simp_all split: option.splits sum.splits)

lemma step_proc_only_confirmed:
  assumes "only_confirmed db"
  shows "only_confirmed (snd (step_proc p db))"
proof -
  have "set (remove1 r (rsvps db)) \<subseteq> set (rsvps db)" for r
    by (rule set_remove1_subset)
  then show ?thesis
    using assms step_proc_rsvps [of p db]
    by (auto simp: only_confirmed_def list_all_iff new_rsvp_def)
qed

lemma run_sched_only_confirmed:
  "only_confirmed (fst c) \<Longrightarrow> only_confirmed (fst (run_sched sched c))"
proof (induction sched arbitrary: c)
  case Nil
  then show ?case by simp
next
  case (Cons i sched)
  have "only_confirmed (fst (step_at i c))"
    using step_proc_only_confirmed [OF Cons.prems, of "snd c ! i"] Cons.prems
    by (cases c) (auto simp: step_at_def split: prod.splits)
  then show ?case by (simp add: Cons.IH)
qed

lemma deleteAccount_only_confirmed:
  "only_confirmed db \<Longrightarrow> only_confirmed (deleteAccount u db)"
  by (simp add: only_confirmed_def deleteAccount_def list_all_iff)

lemma empty_only_confirmed: "rsvps db = [] \<Longrightarrow> only_confirmed db"
  by (simp add: only_confirmed_def)

subsection \<open>The event status is not read\<close>

text \<open>
  Claim C5 says that \<open>createRSVP\<close> on a cancelled or completed event is rejected with
  no effect. The filter of the conditional update names \<open>_id\<close> and the capacity test
  only: on a cancelled event with a free spot the request answers 201, the counter goes
  from 0 to 1 and a confirmed record is stored.
\<close>

theorem createRSVP_cancelled_event_counterexample:
  "createRSVP 7 1 \<lparr>events = [1 \<mapsto> an_event 5 0 Cancelled []], rsvps = []\<rparr>
   = (Created (new_rsvp 7 1) 4,
      \<lparr>events = [1 \<mapsto> an_event 5 1 Cancelled [7]], rsvps = [new_rsvp 7 1]\<rparr>)"
  by (simp add: store_defs)

text \<open>
  Claim C5, amended. \<open>createRSVP\<close> does not look at the status of the event. On an event
  whose status is cancelled or completed it is rejected, with the store unchanged, when
  the user has a confirmed record of the pair (400 "already RSVP'd") or when the event
  has no free spot (400 "full or does not exist"); when the event has a free spot and
  no record of the pair is stored it succeeds as on any other event: the counter goes
  up by one, the user is added to \<open>attendees\<close>, a confirmed record is appended and the
  status stays what it was.
\<close>

theorem createRSVP_ignores_status:
  assumes "events db e = Some ev" and "status ev = Cancelled \<or> status ev = Completed"
  shows "(list_ex (confirmed_for u e) (rsvps db) \<longrightarrow> createRSVP u e db = (AlreadyRSVPd, db))
       \<and> (\<not> list_ex (confirmed_for u e) (rsvps db) \<and> \<not> currentAttendees ev < capacity ev
            \<longrightarrow> createRSVP u e db = (FullOrMissing, db))
       \<and> (\<not> list_ex (same_pair u e) (rsvps db) \<and> currentAttendees ev < capacity ev
            \<longrightarrow> createRSVP u e db =
                 (Created (new_rsvp u e) (capacity ev - (currentAttendees ev + 1)),
                  db\<lparr>events := (events db)(e \<mapsto> ev\<lparr>currentAttendees := currentAttendees ev + 1,
                                        attendees := addToSet u (attendees ev)\<rparr>),
                     rsvps := rsvps db @ [new_rsvp u e]\<rparr>))"
  using assms(1) by (simp add: createRSVP_already createRSVP_full createRSVP_success)

theorem createRSVP_ignores_status_witness:
  "createRSVP 7 1 \<lparr>events = [1 \<mapsto> an_event 3 1 Completed [8]], rsvps = [new_rsvp 8 1]\<rparr>
     = (Created (new_rsvp 7 1) 1,
        \<lparr>events = [1 \<mapsto> an_event 3 2 Completed [8, 7]], rsvps = [new_rsvp 8 1, new_rsvp 7 1]\<rparr>)
   \<and> createRSVP 7 1 \<lparr>events = [1 \<mapsto> an_event 1 1 Cancelled [8]], rsvps = [new_rsvp 8 1]\<rparr>
     = (FullOrMissing, \<lparr>events = [1 \<mapsto> an_event 1 1 Cancelled [8]], rsvps = [new_rsvp 8 1]\<rparr>)"
proof -
  let ?a = "\<lparr>events = [1 \<mapsto> an_event 3 1 Completed [8]], rsvps = [new_rsvp 8 1]\<rparr>"
  let ?b = "\<lparr>events = [1 \<mapsto> an_event 1 1 Cancelled [8]], rsvps = [new_rsvp 8 1]\<rparr>"
  have ea: "events ?a 1 = Some (an_event 3 1 Completed [8])" by simp
  have sa: "status (an_event 3 1 Completed [8]) = Cancelled
          \<or> status (an_event 3 1 Completed [8]) = Completed"
    by (simp add: an_event_def)
  have eb: "events ?b 1 = Some (an_event 1 1 Cancelled [8])" by simp
  have sb: "status (an_event 1 1 Cancelled [8]) = Cancelled
          \<or> status (an_event 1 1 Cancelled [8]) = Completed"
    by (simp add: an_event_def)
  have "createRSVP 7 1 ?a
     = (Created (new_rsvp 7 1) 1,
        \<lparr>events = [1 \<mapsto> an_event 3 2 Completed [8, 7]], rsvps = [new_rsvp 8 1, new_rsvp 7 1]\<rparr>)"
    using createRSVP_ignores_status [OF ea sa, of 7]
    by (simp add: same_pair_def new_rsvp_def an_event_def addToSet_def)
  moreover have "createRSVP 7 1 ?b = (FullOrMissing, ?b)"
    using createRSVP_ignores_status [OF eb sb, of 7]
    by (simp add: confirmed_for_def new_rsvp_def an_event_def)
  ultimately show ?thesis by simp
qed

subsection \<open>Join, Leave, Join\<close>




section \<open>The counter and the confirmed reservations\<close>

subsection \<open>One request at a time\<close>

lemma confirmed_count_append:
  "confirmed_count e' (db\<lparr>events := evs, rsvps := rsvps db @ [new_rsvp u e]\<rparr>)
     = confirmed_count e' db + (if e' = e then 1 else 0)"
  by (simp add: confirmed_count_def new_rsvp_def)

lemma length_filter_remove1:
  "r \<in> set xs \<Longrightarrow> P r \<Longrightarrow> length (filter P (remove1 r xs)) + 1 = length (filter P xs)"
  by (induction xs) auto

lemma filter_remove1_other:
  "\<not> P r \<Longrightarrow> filter P (remove1 r xs) = filter P xs"
  by (induction xs) auto

text \<open>
  When every stored record is confirmed and no other request runs in between,
  \<open>createRSVP\<close> keeps the counters equal to the numbers of confirmed reservations: the
  insert cannot fail after the gate has passed.
\<close>

lemma createRSVP_count_inv:
  assumes "count_inv db" and "only_confirmed db"
  shows "count_inv (snd (createRSVP u e db))"
proof (cases "list_ex (confirmed_for u e) (rsvps db)")
  case True
  then show ?thesis using assms(1) by (simp add: createRSVP_already)
next
  case nc: False
  then have nopair: "\<not> list_ex (same_pair u e) (rsvps db)"
    using assms(2) by (intro only_confirmed_no_pair) (simp_all add: list_ex_iff)
  show ?thesis
  proof (cases "events db e")
    case None
    then show ?thesis using assms(1) nc by (simp add: createRSVP_missing)
  next
    case (Some ev)
    show ?thesis
    proof (cases "currentAttendees ev < capacity ev")
      case False
      then show ?thesis using assms(1) nc Some by (simp add: createRSVP_full)
    next
      case True
      show ?thesis
        using assms(1) Some
        by (auto simp: createRSVP_success [OF Some True nopair] count_inv_def
            confirmed_count_append)
    qed
  qed
qed

text \<open>Under the same conditions a rejected \<open>createRSVP\<close> changes nothing and an accepted
  one raises the counter of its event by one.\<close>

lemma createRSVP_counter_alone:
  assumes "only_confirmed db"
  shows "(fst (createRSVP u e db) = AlreadyRSVPd \<and> snd (createRSVP u e db) = db)
       \<or> (fst (createRSVP u e db) = FullOrMissing \<and> snd (createRSVP u e db) = db)
       \<or> (\<exists>ev. events db e = Some ev
             \<and> fst (createRSVP u e db)
                 = Created (new_rsvp u e) (capacity ev - (currentAttendees ev + 1))
             \<and> map_option currentAttendees (events (snd (createRSVP u e db)) e)
                 = Some (currentAttendees ev + 1))"
proof (cases "list_ex (confirmed_for u e) (rsvps db)")
  case True
  then show ?thesis by (simp add: createRSVP_already)
next
  case nc: False
  then have nopair: "\<not> list_ex (same_pair u e) (rsvps db)"
    using assms by (intro only_confirmed_no_pair) (simp_all add: list_ex_iff)
  show ?thesis
  proof (cases "events db e")
    case None
    then show ?thesis using nc by (simp add: createRSVP_missing)
  next
    case (Some ev)
    show ?thesis
    proof (cases "currentAttendees ev < capacity ev")
      case False
      then show ?thesis using nc Some by (simp add: createRSVP_full)
    next
      case True
      show ?thesis
        using Some by (simp add: createRSVP_success [OF Some True nopair])
    qed
  qed
qed

lemma cancelRSVP_count_inv:
  assumes "count_inv db"
  shows "count_inv (snd (cancelRSVP u e db))"
proof (cases "RSVP_findOne u e db")
  case None
  then show ?thesis using assms by (simp add: cancelRSVP_def RSVP_findOneAndDelete_def)
next
  case (Some r)
  then have mem: "r \<in> set (rsvps db)" and conf: "confirmed_for u e r"
    using RSVP_findOne_SomeD by blast+
  have cnt_e: "confirmed_count e (db\<lparr>rsvps := remove1 r (rsvps db)\<rparr>) + 1 = confirmed_count e db"
    using mem conf
      length_filter_remove1 [of r "rsvps db" "\<lambda>r. event r = e \<and> rstatus r = Confirmed"]
    by (simp add: confirmed_count_def confirmed_for_def)
  have cnt_o: "confirmed_count e' (db\<lparr>rsvps := remove1 r (rsvps db)\<rparr>) = confirmed_count e' db"
    if "e' \<noteq> e" for e'
    using conf that
    by (simp add: confirmed_count_def confirmed_for_def filter_remove1_other)
  have cc: "confirmed_count e' (d\<lparr>events := evs\<rparr>) = confirmed_count e' d" for e' d evs
    by (simp add: confirmed_count_def)
  show ?thesis
  proof (cases "events db e")
    case None
    then have "snd (cancelRSVP u e db) = db\<lparr>rsvps := remove1 r (rsvps db)\<rparr>"
      using Some
      by (simp add: cancelRSVP_def RSVP_findOneAndDelete_def Event_findByIdAndUpdate_def)
    moreover have "currentAttendees ev'
        = real (confirmed_count e' (db\<lparr>rsvps := remove1 r (rsvps db)\<rparr>))"
      if "events db e' = Some ev'" for e' ev'
    proof -
      from that None have "e' \<noteq> e" by auto
      then show ?thesis
        using assms that cnt_o [of e'] by (simp add: count_inv_def)
    qed
    ultimately show ?thesis
      by (simp add: count_inv_def)
  next
    case ev: (Some ev)
    show ?thesis
      unfolding cancelRSVP_success [OF Some ev] snd_conv count_inv_def
    proof (intro allI impI)
      fix e' ev'
      assume a: "events (db\<lparr>rsvps := remove1 r (rsvps db),
            events := (events db)(e \<mapsto> ev\<lparr>currentAttendees := currentAttendees ev - 1,
              attendees := pull u (attendees ev)\<rparr>)\<rparr>) e' = Some ev'"
      show "currentAttendees ev' = real (confirmed_count e' (db\<lparr>rsvps := remove1 r (rsvps db),
            events := (events db)(e \<mapsto> ev\<lparr>currentAttendees := currentAttendees ev - 1,
              attendees := pull u (attendees ev)\<rparr>)\<rparr>))"
      proof (cases "e' = e")
        case True
        with a have "currentAttendees ev' = currentAttendees ev - 1" by auto
        moreover have "currentAttendees ev = real (confirmed_count e db)"
          using assms ev by (simp add: count_inv_def)
        ultimately show ?thesis using cnt_e True by (simp add: cc)
      next
        case False
        with a have "events db e' = Some ev'" by simp
        then have "currentAttendees ev' = real (confirmed_count e' db)"
          using assms by (simp add: count_inv_def)
        then show ?thesis using cnt_o [OF False] by (simp add: cc)
      qed
    qed
  qed
qed

subsection \<open>Two requests of one user\<close>

text \<open>
  Claim C1 says that after every completed Join or Leave each counter equals the number
  of confirmed reservations of its event, and that a Join whose insert fails on a
  duplicate key takes its increment back. \<open>createRSVP\<close> has no such step: its \<open>catch\<close>
  block answers 400 and returns. User 7 sends two requests for event 1 (capacity 2,
  nobody attending). Both pass the first \<open>findOne\<close>, both pass the gate, the first
  stores its record and the save hook of the second throws the error 11000. Both
  requests are complete; the counter is 2, the event has one confirmed reservation and
  \<open>attendees\<close> holds one user.
\<close>

theorem counter_drifts_after_duplicate_join:
  "map_option currentAttendees (events (fst two_joins) 1) = Some 0
   \<and> confirmed_count 1 (fst two_joins) = 0
   \<and> run_sched [0, 1, 0, 1, 0, 0, 1] two_joins
       = (\<lparr>events = [1 \<mapsto> an_event 2 2 Upcoming [7]], rsvps = [new_rsvp 7 1]\<rparr>,
          [Done (Created (new_rsvp 7 1) 1), Done AlreadyRSVPd])
   \<and> map_option currentAttendees (events (fst (run_sched [0, 1, 0, 1, 0, 0, 1] two_joins)) 1)
       = Some 2
   \<and> confirmed_count 1 (fst (run_sched [0, 1, 0, 1, 0, 0, 1] two_joins)) = 1"
proof -
  have start: "map_option currentAttendees (events (fst two_joins) 1) = Some 0"
    "confirmed_count 1 (fst two_joins) = 0"
    by (simp_all add: two_joins_def confirmed_count_def an_event_def)
  have run: "run_sched [0, 1, 0, 1, 0, 0, 1] two_joins
     = (\<lparr>events = [1 \<mapsto> an_event 2 2 Upcoming [7]], rsvps = [new_rsvp 7 1]\<rparr>,
        [Done (Created (new_rsvp 7 1) 1), Done AlreadyRSVPd])"
    by (simp add: two_joins_def step_at_def store_defs)
  have ctr: "map_option currentAttendees
      (events (fst (run_sched [0, 1, 0, 1, 0, 0, 1] two_joins)) 1) = Some 2"
    by (simp only: run) (simp add: an_event_def)
  have cnt: "confirmed_count 1 (fst (run_sched [0, 1, 0, 1, 0, 0, 1] two_joins)) = 1"
    by (simp only: run) (simp add: confirmed_count_def new_rsvp_def)
  from start run ctr cnt show ?thesis by blast
qed

text \<open>The same run, in terms of the invariant: it holds before and fails after.\<close>

lemma two_joins_break_count_inv:
  "count_inv (fst two_joins)
   \<and> \<not> count_inv (fst (run_sched [0, 1, 0, 1, 0, 0, 1] two_joins))"
proof -
  have start: "count_inv (fst two_joins)"
    by (simp add: two_joins_def count_inv_def confirmed_count_def an_event_def)
  have run: "run_sched [0, 1, 0, 1, 0, 0, 1] two_joins
     = (\<lparr>events = [1 \<mapsto> an_event 2 2 Upcoming [7]], rsvps = [new_rsvp 7 1]\<rparr>,
        [Done (Created (new_rsvp 7 1) 1), Done AlreadyRSVPd])"
    by (simp add: two_joins_def step_at_def store_defs)
  have bad: "\<not> count_inv (fst (run_sched [0, 1, 0, 1, 0, 0, 1] two_joins))"
    unfolding run fst_conv
    by (simp add: count_inv_def confirmed_count_def new_rsvp_def an_event_def)
  from start bad show ?thesis by blast
qed

text \<open>
  Claim C2 says that a Join that fails leaves the counter unchanged. In the same race,
  let the first request finish before the second reaches the gate: the counter is 1.
  The second request then passes the gate (the counter becomes 2), its
  \<open>RSVP.create\<close> fails in the save hook, and it answers 400 "You have already RSVP'd to
  this event" with the counter left at 2.
\<close>

theorem failed_join_keeps_increment:
  "run_sched [0, 1, 0, 0, 0] two_joins
     = (\<lparr>events = [1 \<mapsto> an_event 2 1 Upcoming [7]], rsvps = [new_rsvp 7 1]\<rparr>,
        [Done (Created (new_rsvp 7 1) 1), Join1 7 1])
   \<and> run_sched [1, 1] (run_sched [0, 1, 0, 0, 0] two_joins)
     = (\<lparr>events = [1 \<mapsto> an_event 2 2 Upcoming [7]], rsvps = [new_rsvp 7 1]\<rparr>,
        [Done (Created (new_rsvp 7 1) 1), Done AlreadyRSVPd])"
proof -
  have first: "run_sched [0, 1, 0, 0, 0] two_joins
     = (\<lparr>events = [1 \<mapsto> an_event 2 1 Upcoming [7]], rsvps = [new_rsvp 7 1]\<rparr>,
        [Done (Created (new_rsvp 7 1) 1), Join1 7 1])"
    by (simp add: two_joins_def step_at_def store_defs)
  have "run_sched [1, 1]
       (\<lparr>events = [1 \<mapsto> an_event 2 1 Upcoming [7]], rsvps = [new_rsvp 7 1]\<rparr>,
        [Done (Created (new_rsvp 7 1) 1), Join1 7 1])
     = (\<lparr>events = [1 \<mapsto> an_event 2 2 Upcoming [7]], rsvps = [new_rsvp 7 1]\<rparr>,
        [Done (Created (new_rsvp 7 1) 1), Done AlreadyRSVPd])"
    by (simp add: step_at_def store_defs)
  with first show ?thesis by (simp only:)
qed

end
